theory Spec2Isabelle
  imports Main "HOL-Library.Word"
begin

section \<open>JavaScript values used by the application\<close>

text \<open>
  Chess notation (squares, UCI moves, FEN) is held in HOL strings. The week key and the
  player's name are JavaScript strings whose code units matter (\<open>charCodeAt\<close>,
  \<open>trim\<close>, \<open>slice\<close>), so they are lists of UTF-16 code units.
\<close>

type_synonym jsstring = "16 word list"

text \<open>\<open>xs[i]\<close> on a JavaScript array: \<open>undefined\<close> outside the array.\<close>

definition at_index :: "'a list \<Rightarrow> int \<Rightarrow> 'a option" where
  "at_index xs i = (if 0 \<le> i \<and> i < int (length xs) then Some (xs ! nat i) else None)"

text \<open>
  \<open>String.prototype.toLowerCase\<close> on code units below 256: the ASCII capitals and
  the Latin-1 capitals (U+00C0 to U+00DE, without the multiplication sign U+00D7) move
  up by 32, every other code unit stays.
\<close>

definition lowerChar :: "char \<Rightarrow> char" where
  "lowerChar c =
     (let n = (of_char c :: nat)
      in if (65 \<le> n \<and> n \<le> 90) \<or> (192 \<le> n \<and> n \<le> 222 \<and> n \<noteq> 215)
         then char_of (n + 32) else c)"

definition toLowerCase :: "string \<Rightarrow> string" where
  "toLowerCase s = map lowerChar s"

text \<open>
  The code units \<open>String.prototype.trim\<close> removes: ECMAScript's WhiteSpace and
  LineTerminator.
\<close>

definition isWhiteSpace :: "16 word \<Rightarrow> bool" where
  "isWhiteSpace c =
     (let n = unat c
      in n \<in> {9, 10, 11, 12, 13, 32, 160, 5760, 8232, 8233, 8239, 8287, 12288, 65279}
         \<or> (8192 \<le> n \<and> n \<le> 8202))"

definition trim :: "jsstring \<Rightarrow> jsstring" where
  "trim s = rev (dropWhile isWhiteSpace (rev (dropWhile isWhiteSpace s)))"

section \<open>The puzzle catalog (puzzles.ts)\<close>

record WeeklyPuzzle =
  id_pz :: string
  title :: string
  fen :: string
  solution :: "string list"
  hint :: "string option"

definition PUZZLES :: "WeeklyPuzzle list" where
  "PUZZLES =
     [\<lparr>id_pz = ''wk-midgame-italian-5'',
       title = ''Weekly Midgame Puzzle (5 moves)'',
       fen = ''r1bqk2r/pppp1ppp/2n2n2/2b5/2BpP3/2P2N2/PP3PPP/RNBQK2R w KQkq - 0 6'',
       solution = [''c3d4'', ''c5b4'', ''b1c3'', ''f6e4'', ''e1g1'', ''e4c3'', ''b2c3'',
                   ''b4a5'', ''f1e1''],
       hint = Some ''First: fix the center pawn. Then develop and castle. Watch the knight jumps.''\<rparr>]"

section \<open>Helpers of App.tsx\<close>

subsection \<open>pickWeeklyPuzzle\<close>

text \<open>
  \<open>hash = (hash * 31 + weekKey.charCodeAt(i)) >>> 0\<close>. JavaScript numbers are doubles;
  \<open>hash\<close> is below \<open>2^32\<close> before each step, so \<open>hash * 31 + code\<close> stays below
  \<open>2^53\<close> and the double arithmetic is exact (lemma \<open>hashStep_exact\<close>).
  \<open>>>> 0\<close> is ToUint32: the value modulo \<open>2^32\<close>.
\<close>

definition hashStep :: "nat \<Rightarrow> 16 word \<Rightarrow> nat" where
  "hashStep h c = (h * 31 + unat c) mod 2 ^ 32"

fun hashLoop :: "nat \<Rightarrow> jsstring \<Rightarrow> nat" where
  "hashLoop h [] = h"
| "hashLoop h (c # cs) = hashLoop (hashStep h c) cs"

definition weekHash :: "jsstring \<Rightarrow> nat" where
  "weekHash weekKey = hashLoop 0 weekKey"

text \<open>
  \<open>PUZZLES[hash % PUZZLES.length]\<close>, with the catalog as a parameter. On an empty
  catalog \<open>hash % 0\<close> is NaN and the read is \<open>undefined\<close>.
\<close>

definition pickFrom :: "WeeklyPuzzle list \<Rightarrow> jsstring \<Rightarrow> WeeklyPuzzle option" where
  "pickFrom catalog weekKey =
     (if length catalog = 0 then None
      else at_index catalog (int (weekHash weekKey mod length catalog)))"

definition pickWeeklyPuzzle :: "jsstring \<Rightarrow> WeeklyPuzzle option" where
  "pickWeeklyPuzzle weekKey = pickFrom PUZZLES weekKey"

text \<open>
  The hash as the specification words it: multiply by 31 and add the character code, in
  unsigned 32-bit arithmetic, starting from 0.
\<close>

fun spec_hash_from :: "32 word \<Rightarrow> jsstring \<Rightarrow> 32 word" where
  "spec_hash_from h [] = h"
| "spec_hash_from h (c # cs) = spec_hash_from (h * 31 + ucast c) cs"

definition spec_hash :: "jsstring \<Rightarrow> 32 word" where
  "spec_hash weekKey = spec_hash_from 0 weekKey"

subsection \<open>clampName, parseUci\<close>

definition clampName :: "jsstring \<Rightarrow> jsstring" where
  "clampName s = take 24 (trim s)"

record Uci =
  uci_from :: string
  uci_to :: string
  uci_promotion :: "char option"

definition parseUci :: "string \<Rightarrow> Uci" where
  "parseUci uci =
     \<lparr>uci_from = take 2 uci,
      uci_to = take 2 (drop 2 uci),
      uci_promotion = (if length uci \<ge> 5 then Some (uci ! 4) else None)\<rparr>"

section \<open>The rules library (chess.js) as a parameter\<close>

text \<open>
  chess.js is not part of the repository. The application uses four of its operations,
  taken here as a record of functions over an abstract game type \<open>'g\<close>:
  \<open>new Chess(fen)\<close>, \<open>g.move({from, to, promotion})\<close>, \<open>g.undo()\<close> and \<open>g.fen()\<close>.
  \<open>move\<close> answers \<open>null\<close> for an illegal move and leaves the game as it was (the
  contract \<open>tryPlayerMove\<close> is written against); for a legal move it answers the move
  made, of which the application reads \<open>from\<close> and \<open>to\<close>, and the game is mutated:
  the model returns the new game beside the move.
\<close>

record Move =
  from_sq :: string
  to_sq :: string

record 'g Chess =
  chess_new :: "string \<Rightarrow> 'g"
  chess_move :: "'g \<Rightarrow> string \<Rightarrow> string \<Rightarrow> char \<Rightarrow> (Move \<times> 'g) option"
  chess_undo :: "'g \<Rightarrow> 'g"
  chess_fen :: "'g \<Rightarrow> string"

text \<open>What the theorems below assume of the library, each where it is needed.\<close>

definition echoes_squares :: "'g Chess \<Rightarrow> bool" where
  "echoes_squares R =
     (\<forall>g f t pr m g'. chess_move R g f t pr = Some (m, g') \<longrightarrow> from_sq m = f \<and> to_sq m = t)"

definition undo_restores :: "'g Chess \<Rightarrow> bool" where
  "undo_restores R =
     (\<forall>g f t pr m g'. chess_move R g f t pr = Some (m, g') \<longrightarrow>
        chess_fen R (chess_undo R g') = chess_fen R g)"

definition reload_stable :: "'g Chess \<Rightarrow> bool" where
  "reload_stable R = (\<forall>g. chess_fen R (chess_new R (chess_fen R g)) = chess_fen R g)"

section \<open>The session state of App\<close>

text \<open>
  The React state of the component and the \<open>startRef\<close> reference. \<open>Date.now()\<close> is
  an input of the operations that read the clock.
\<close>

record 'g app_state =
  game :: 'g
  selected :: "(nat \<times> nat) option"
  playerMoveIndex :: nat
  mistakes :: nat
  done_st :: bool
  name :: jsstring
  startRef :: "int option"
  timeMs :: int
  hintStage :: nat

definition REQUIRED_PLAYER_MOVES :: nat where
  "REQUIRED_PLAYER_MOVES = 5"

text \<open>The state after the first render: the \<open>useState\<close> and \<open>useRef\<close> initial values.\<close>

definition initial :: "'g Chess \<Rightarrow> WeeklyPuzzle \<Rightarrow> 'g app_state" where
  "initial R puzzle =
     \<lparr>game = chess_new R (fen puzzle), selected = None, playerMoveIndex = 0, mistakes = 0,
      done_st = False, name = [], startRef = None, timeMs = 0, hintStage = 0\<rparr>"

definition restartPuzzle :: "'g Chess \<Rightarrow> WeeklyPuzzle \<Rightarrow> 'g app_state \<Rightarrow> 'g app_state" where
  "restartPuzzle R puzzle s =
     s\<lparr>game := chess_new R (fen puzzle), selected := None, playerMoveIndex := 0,
       mistakes := 0, done_st := False, hintStage := 0, startRef := None, timeMs := 0\<rparr>"

text \<open>
  \<open>!startRef.current\<close> is JavaScript truthiness of a \<open>number | null\<close>: \<open>null\<close> and
  \<open>0\<close> are both falsy.
\<close>

definition truthy :: "int option \<Rightarrow> bool" where
  "truthy r = (case r of None \<Rightarrow> False | Some t \<Rightarrow> t \<noteq> 0)"

definition startTimerIfNeeded :: "int \<Rightarrow> 'g app_state \<Rightarrow> 'g app_state" where
  "startTimerIfNeeded now s = (if \<not> truthy (startRef s) then s\<lparr>startRef := Some now\<rparr> else s)"

text \<open>\<open>puzzle.solution[playerMoveIndex * 2] || ""\<close>\<close>

definition nextPlayerUci :: "WeeklyPuzzle \<Rightarrow> 'g app_state \<Rightarrow> string" where
  "nextPlayerUci puzzle s =
     (case at_index (solution puzzle) (int (playerMoveIndex s) * 2) of
        None \<Rightarrow> [] | Some u \<Rightarrow> u)"

definition hintSquares :: "WeeklyPuzzle \<Rightarrow> 'g app_state \<Rightarrow> (string \<times> string) option" where
  "hintSquares puzzle s =
     (if done_st s then None
      else if nextPlayerUci puzzle s = [] \<or> length (nextPlayerUci puzzle s) < 4 then None
      else Some (uci_from (parseUci (nextPlayerUci puzzle s)),
                 uci_to (parseUci (nextPlayerUci puzzle s))))"

text \<open>
  The reply after player move number \<open>n\<close> is \<open>solution[n * 2 - 1]\<close>; nothing happens when
  that entry is missing or empty. The result of \<open>g.move\<close> is not looked at.
\<close>

definition applyOpponentMoveIfExists :: "'g Chess \<Rightarrow> WeeklyPuzzle \<Rightarrow> nat \<Rightarrow> 'g \<Rightarrow> 'g" where
  "applyOpponentMoveIfExists R puzzle nextPlayerIdx g =
     (case at_index (solution puzzle) (int nextPlayerIdx * 2 - 1) of
        None \<Rightarrow> g
      | Some uci \<Rightarrow>
          if uci = [] then g
          else
            let m = parseUci uci;
                pr = (case uci_promotion m of None \<Rightarrow> CHR ''q'' | Some c \<Rightarrow> c)
            in (case chess_move R g (uci_from m) (uci_to m) pr of
                  None \<Rightarrow> g
                | Some (_, g') \<Rightarrow> g'))"

definition tryPlayerMove ::
  "'g Chess \<Rightarrow> WeeklyPuzzle \<Rightarrow> int \<Rightarrow> string \<Rightarrow> string \<Rightarrow> 'g app_state \<Rightarrow> 'g app_state" where
  "tryPlayerMove R puzzle now f t s =
     (if done_st s then s
      else case chess_move R (game s) f t (CHR ''q'') of
        None \<Rightarrow> s
      | Some (attempted, moved) \<Rightarrow>
         (let s1 = startTimerIfNeeded now s;
              uci = toLowerCase (from_sq attempted @ to_sq attempted);
              expected = toLowerCase (nextPlayerUci puzzle s)
          in if uci \<noteq> expected
             then s1\<lparr>game := chess_new R (chess_fen R (chess_undo R moved)),
                     mistakes := mistakes s + 1,
                     hintStage := 0\<rparr>
             else
               let nextIdx = playerMoveIndex s + 1;
                   g = applyOpponentMoveIfExists R puzzle nextIdx
                         (chess_new R (chess_fen R moved))
               in s1\<lparr>game := g, selected := None, hintStage := 0,
                       playerMoveIndex := nextIdx,
                       done_st := (if nextIdx \<ge> REQUIRED_PLAYER_MOVES then True else done_st s)\<rparr>))"

text \<open>
  The hint button: disabled when \<open>done || !hintSquares\<close>; otherwise
  \<open>setHintStage(s => (s === 0 ? 1 : s === 1 ? 2 : 0))\<close>.
\<close>

definition nextHintStage :: "nat \<Rightarrow> nat" where
  "nextHintStage h = (if h = 0 then 1 else if h = 1 then 2 else 0)"

definition hintClick :: "WeeklyPuzzle \<Rightarrow> 'g app_state \<Rightarrow> 'g app_state" where
  "hintClick puzzle s =
     (if done_st s \<or> hintSquares puzzle s = None then s
      else s\<lparr>hintStage := nextHintStage (hintStage s)\<rparr>)"

text \<open>The interval callback: \<open>if (startRef.current && !done) setTimeMs(Date.now() - startRef.current)\<close>.\<close>

definition tick :: "int \<Rightarrow> 'g app_state \<Rightarrow> 'g app_state" where
  "tick now s =
     (case startRef s of
        None \<Rightarrow> s
      | Some t0 \<Rightarrow> if t0 \<noteq> 0 \<and> \<not> done_st s then s\<lparr>timeMs := now - t0\<rparr> else s)"

definition setName :: "jsstring \<Rightarrow> 'g app_state \<Rightarrow> 'g app_state" where
  "setName n s = s\<lparr>name := n\<rparr>"

text \<open>
  \<open>submitScore\<close>: the row handed to \<open>supabase.from("leaderboard").insert\<close>, or
  \<open>None\<close> when the function returns before the insert.
\<close>

record LeaderInsert =
  week_key :: jsstring
  name_row :: jsstring
  time_ms :: int
  mistakes_row :: nat

definition submitScore :: "jsstring \<Rightarrow> 'g app_state \<Rightarrow> LeaderInsert option" where
  "submitScore weekKey s =
     (let finalName = clampName (name s)
      in if \<not> done_st s \<or> finalName = [] then None
         else Some \<lparr>week_key = weekKey, name_row = finalName, time_ms = timeMs s,
                    mistakes_row = mistakes s\<rparr>)"

subsection \<open>Sessions as sequences of events\<close>

datatype event =
    Attempt int string string
  | HintClick
  | Restart
  | Tick int
  | SetName jsstring

fun step :: "'g Chess \<Rightarrow> WeeklyPuzzle \<Rightarrow> event \<Rightarrow> 'g app_state \<Rightarrow> 'g app_state" where
  "step R puzzle (Attempt now f t) s = tryPlayerMove R puzzle now f t s"
| "step R puzzle HintClick s = hintClick puzzle s"
| "step R puzzle Restart s = restartPuzzle R puzzle s"
| "step R puzzle (Tick now) s = tick now s"
| "step R puzzle (SetName n) s = setName n s"

fun run :: "'g Chess \<Rightarrow> WeeklyPuzzle \<Rightarrow> event list \<Rightarrow> 'g app_state \<Rightarrow> 'g app_state" where
  "run R puzzle [] s = s"
| "run R puzzle (e # es) s = run R puzzle es (step R puzzle e s)"

subsection \<open>Playing the solution\<close>

text \<open>
  The player plays entry \<open>i\<close> of the line by clicking its source square and then its
  destination square. \<open>solutionAttempts p k nows\<close> are the attempts for the player
  entries \<open>2k, 2(k+1), ...\<close>, one per clock reading. \<open>all_legal\<close> says that the rules
  library accepts every attempt of a sequence in the position where it is made.
\<close>

definition solutionEntry :: "WeeklyPuzzle \<Rightarrow> nat \<Rightarrow> string" where
  "solutionEntry p i = (case at_index (solution p) (int i) of None \<Rightarrow> [] | Some u \<Rightarrow> u)"

fun solutionAttempts :: "WeeklyPuzzle \<Rightarrow> nat \<Rightarrow> int list \<Rightarrow> event list" where
  "solutionAttempts p k [] = []"
| "solutionAttempts p k (now # nows) =
     Attempt now (uci_from (parseUci (solutionEntry p (2 * k))))
                 (uci_to (parseUci (solutionEntry p (2 * k))))
       # solutionAttempts p (Suc k) nows"

fun accepted :: "'g Chess \<Rightarrow> 'g app_state \<Rightarrow> event \<Rightarrow> bool" where
  "accepted R s (Attempt now f t) = (chess_move R (game s) f t (CHR ''q'') \<noteq> None)"
| "accepted R s _ = True"

fun all_legal :: "'g Chess \<Rightarrow> WeeklyPuzzle \<Rightarrow> event list \<Rightarrow> 'g app_state \<Rightarrow> bool" where
  "all_legal R p [] s = True"
| "all_legal R p (e # es) s = (accepted R s e \<and> all_legal R p es (step R p e s))"

text \<open>
  An event that cannot start the timer in a session whose game is \<open>g\<close>: anything but a
  restart or an attempt the library accepts.
\<close>

fun quiet :: "'g Chess \<Rightarrow> 'g \<Rightarrow> event \<Rightarrow> bool" where
  "quiet R g (Attempt now f t) = (chess_move R g f t (CHR ''q'') = None)"
| "quiet R g Restart = False"
| "quiet R g _ = True"

text \<open>
  The shape of a catalog entry that the proofs use: nine half-moves, each four
  characters long and already in lower case.
\<close>

definition wellformed :: "WeeklyPuzzle \<Rightarrow> bool" where
  "wellformed p =
     (length (solution p) = 9 \<and> (\<forall>u \<in> set (solution p). length u = 4 \<and> toLowerCase u = u))"

text \<open>The ranges that hold in every state a session reaches.\<close>

definition session_inv :: "'g app_state \<Rightarrow> bool" where
  "session_inv s =
     (playerMoveIndex s \<le> 5 \<and> done_st s = (playerMoveIndex s = 5) \<and> hintStage s \<le> 2)"

section \<open>A scripted stand-in for the rules library\<close>

text \<open>
  A small instance of the rules interface, used where a theorem is applied to concrete
  input. A game is its position (a FEN string) and the positions before it. The moves it
  accepts are listed in a table: the nine moves of the catalog puzzle's line, each from
  the position the line reaches, and two other legal moves from the starting position
  (h2h3 and castling short). Every other request is answered with \<open>None\<close>. The
  positions are the standard FEN of the board after each move.
\<close>

record line_game =
  pos :: string
  past :: "string list"

definition line_table :: "((string \<times> string \<times> string) \<times> string) list" where
  "line_table =
    [((''r1bqk2r/pppp1ppp/2n2n2/2b5/2BpP3/2P2N2/PP3PPP/RNBQK2R w KQkq - 0 6'', ''c3'', ''d4''),
      ''r1bqk2r/pppp1ppp/2n2n2/2b5/2BPP3/5N2/PP3PPP/RNBQK2R b KQkq - 0 6''),
     ((''r1bqk2r/pppp1ppp/2n2n2/2b5/2BPP3/5N2/PP3PPP/RNBQK2R b KQkq - 0 6'', ''c5'', ''b4''),
      ''r1bqk2r/pppp1ppp/2n2n2/8/1bBPP3/5N2/PP3PPP/RNBQK2R w KQkq - 1 7''),
     ((''r1bqk2r/pppp1ppp/2n2n2/8/1bBPP3/5N2/PP3PPP/RNBQK2R w KQkq - 1 7'', ''b1'', ''c3''),
      ''r1bqk2r/pppp1ppp/2n2n2/8/1bBPP3/2N2N2/PP3PPP/R1BQK2R b KQkq - 2 7''),
     ((''r1bqk2r/pppp1ppp/2n2n2/8/1bBPP3/2N2N2/PP3PPP/R1BQK2R b KQkq - 2 7'', ''f6'', ''e4''),
      ''r1bqk2r/pppp1ppp/2n5/8/1bBPn3/2N2N2/PP3PPP/R1BQK2R w KQkq - 0 8''),
     ((''r1bqk2r/pppp1ppp/2n5/8/1bBPn3/2N2N2/PP3PPP/R1BQK2R w KQkq - 0 8'', ''e1'', ''g1''),
      ''r1bqk2r/pppp1ppp/2n5/8/1bBPn3/2N2N2/PP3PPP/R1BQ1RK1 b kq - 1 8''),
     ((''r1bqk2r/pppp1ppp/2n5/8/1bBPn3/2N2N2/PP3PPP/R1BQ1RK1 b kq - 1 8'', ''e4'', ''c3''),
      ''r1bqk2r/pppp1ppp/2n5/8/1bBP4/2n2N2/PP3PPP/R1BQ1RK1 w kq - 0 9''),
     ((''r1bqk2r/pppp1ppp/2n5/8/1bBP4/2n2N2/PP3PPP/R1BQ1RK1 w kq - 0 9'', ''b2'', ''c3''),
      ''r1bqk2r/pppp1ppp/2n5/8/1bBP4/2P2N2/P4PPP/R1BQ1RK1 b kq - 0 9''),
     ((''r1bqk2r/pppp1ppp/2n5/8/1bBP4/2P2N2/P4PPP/R1BQ1RK1 b kq - 0 9'', ''b4'', ''a5''),
      ''r1bqk2r/pppp1ppp/2n5/b7/2BP4/2P2N2/P4PPP/R1BQ1RK1 w kq - 1 10''),
     ((''r1bqk2r/pppp1ppp/2n5/b7/2BP4/2P2N2/P4PPP/R1BQ1RK1 w kq - 1 10'', ''f1'', ''e1''),
      ''r1bqk2r/pppp1ppp/2n5/b7/2BP4/2P2N2/P4PPP/R1BQR1K1 b kq - 2 10''),
     ((''r1bqk2r/pppp1ppp/2n2n2/2b5/2BpP3/2P2N2/PP3PPP/RNBQK2R w KQkq - 0 6'', ''h2'', ''h3''),
      ''r1bqk2r/pppp1ppp/2n2n2/2b5/2BpP3/2P2N1P/PP3PP1/RNBQK2R b KQkq - 0 6''),
     ((''r1bqk2r/pppp1ppp/2n2n2/2b5/2BpP3/2P2N2/PP3PPP/RNBQK2R w KQkq - 0 6'', ''e1'', ''g1''),
      ''r1bqk2r/pppp1ppp/2n2n2/2b5/2BpP3/2P2N2/PP3PPP/RNBQ1RK1 b kq - 1 6'')]"

definition line_move :: "line_game \<Rightarrow> string \<Rightarrow> string \<Rightarrow> char \<Rightarrow> (Move \<times> line_game) option" where
  "line_move g f t pr =
     (case map_of line_table (pos g, f, t) of
        None \<Rightarrow> None
      | Some after \<Rightarrow>
          Some (\<lparr>from_sq = f, to_sq = t\<rparr>, \<lparr>pos = after, past = pos g # past g\<rparr>))"

definition line_undo :: "line_game \<Rightarrow> line_game" where
  "line_undo g = (case past g of [] \<Rightarrow> g | before # older \<Rightarrow> \<lparr>pos = before, past = older\<rparr>)"

definition lineRules :: "line_game Chess" where
  "lineRules =
     \<lparr>chess_new = (\<lambda>f. \<lparr>pos = f, past = []\<rparr>),
      chess_move = line_move,
      chess_undo = line_undo,
      chess_fen = pos\<rparr>"

text \<open>The catalog's puzzle, and the session on it after the first render.\<close>

definition italian :: WeeklyPuzzle where
  "italian = hd PUZZLES"

definition start0 :: "line_game app_state" where
  "start0 = initial lineRules italian"

text \<open>
  Sessions used as concrete inputs: both hint squares shown; the first four moves of the
  line played; and the line solved after one wrong move, with a tick before the last move.
\<close>

definition hinted :: "line_game app_state" where
  "hinted = run lineRules italian [HintClick, HintClick] start0"

definition afterFour :: "line_game app_state" where
  "afterFour = run lineRules italian (solutionAttempts italian 0 [1000, 2000, 3000, 4000]) start0"

definition solved :: "line_game app_state" where
  "solved =
     run lineRules italian
       (Attempt 900 ''h2'' ''h3'' # solutionAttempts italian 0 [1000, 2000, 3000, 4000]
          @ [Tick 4800, Attempt 5000 ''f1'' ''e1''])
       start0"

section \<open>Lemmas about the helpers\<close>

subsection \<open>The week hash\<close>

lemma unat_code_unit: "unat (c :: 16 word) < 65536"
  using unsigned_less [of c, where ?'a = nat] by simp

lemma hashStep_exact: "h < 2 ^ 32 \<Longrightarrow> h * 31 + unat (c :: 16 word) < 2 ^ 53"
  using unat_code_unit [of c] by simp

lemma hashLoop_bound: "h < 2 ^ 32 \<Longrightarrow> hashLoop h cs < 2 ^ 32"
  by (induction cs arbitrary: h) (simp_all add: hashStep_def)

lemma unat_ucast_code_unit: "unat (ucast (c :: 16 word) :: 32 word) = unat c"
proof -
  have "unat c < 2 ^ 32"
    using unat_code_unit [of c] by simp
  then have "take_bit 32 (unat c) = unat c"
    by (simp add: take_bit_nat_eq_self_iff)
  then show ?thesis
    by (simp add: unsigned_ucast_eq)
qed

lemma hashStep_word: "hashStep (unat w) c = unat (w * 31 + ucast c :: 32 word)"
  by (simp add: hashStep_def unat_word_ariths unat_ucast_code_unit mod_simps)

lemma hashLoop_word: "hashLoop (unat w) cs = unat (spec_hash_from w cs)"
  by (induction cs arbitrary: w) (simp_all add: hashStep_word)

lemma weekHash_spec: "weekHash wk = unat (spec_hash wk)"
  using hashLoop_word [of 0 wk] by (simp add: weekHash_def spec_hash_def)

lemma pickFrom_index:
  "catalog \<noteq> [] \<Longrightarrow> pickFrom catalog wk = Some (catalog ! (weekHash wk mod length catalog))"
  by (simp add: pickFrom_def at_index_def)

subsection \<open>Trimming\<close>

lemma trim_empty_iff: "(trim s = []) = (\<forall>c \<in> set s. isWhiteSpace c)"
proof
  assume "trim s = []"
  then have all: "\<forall>c \<in> set (dropWhile isWhiteSpace s). isWhiteSpace c"
    by (simp add: trim_def dropWhile_eq_Nil_conv)
  have "dropWhile isWhiteSpace s = []"
  proof (cases "dropWhile isWhiteSpace s")
    case Nil
    then show ?thesis .
  next
    case (Cons x xs)
    then have "\<not> isWhiteSpace x"
      using hd_dropWhile [of isWhiteSpace s] by simp
    with all Cons show ?thesis by simp
  qed
  then show "\<forall>c \<in> set s. isWhiteSpace c"
    by (simp add: dropWhile_eq_Nil_conv)
next
  assume "\<forall>c \<in> set s. isWhiteSpace c"
  then have d: "dropWhile isWhiteSpace s = []"
    by (simp add: dropWhile_eq_Nil_conv)
  show "trim s = []"
    unfolding trim_def d by simp
qed

lemma clampName_empty_iff: "(clampName s = []) = (trim s = [])"
  by (simp add: clampName_def)

subsection \<open>The catalog\<close>

lemma italian_in_catalog: "italian \<in> set PUZZLES"
  by (simp add: italian_def PUZZLES_def)

lemma catalog_wellformed: "p \<in> set PUZZLES \<Longrightarrow> wellformed p"
  by (simp add: wellformed_def PUZZLES_def toLowerCase_def lowerChar_def)

lemma wf_entry:
  assumes "wellformed p" and "i < 9"
  shows "at_index (solution p) (int i) = Some (solution p ! i)"
    and "length (solution p ! i) = 4"
    and "toLowerCase (solution p ! i) = solution p ! i"
  using assms by (simp_all add: wellformed_def at_index_def)

lemma wf_nextPlayerUci:
  assumes "wellformed p" and "playerMoveIndex s < 5"
  shows "nextPlayerUci p s = solution p ! (2 * playerMoveIndex s)"
proof -
  have e: "int (playerMoveIndex s) * 2 = int (2 * playerMoveIndex s)" by simp
  have lt: "2 * playerMoveIndex s < 9" using assms(2) by simp
  show ?thesis
    unfolding nextPlayerUci_def e wf_entry(1) [OF assms(1) lt] by simp
qed

lemma wf_reply:
  assumes "wellformed p" and "n < 4"
  shows "applyOpponentMoveIfExists R p (Suc n) g =
     (case chess_move R g (take 2 (solution p ! Suc (2 * n)))
             (take 2 (drop 2 (solution p ! Suc (2 * n)))) (CHR ''q'') of
        None \<Rightarrow> g | Some (m2, g2) \<Rightarrow> g2)"
proof -
  have idx: "int (Suc n) * 2 - 1 = int (Suc (2 * n))" by simp
  have lt: "Suc (2 * n) < 9" using assms(2) by simp
  have len: "length (solution p ! Suc (2 * n)) = 4"
    by (rule wf_entry(2) [OF assms(1) lt])
  then have ne: "solution p ! Suc (2 * n) \<noteq> []" by auto
  show ?thesis
    unfolding applyOpponentMoveIfExists_def idx wf_entry(1) [OF assms(1) lt]
    using len ne by (simp add: parseUci_def Let_def split: option.splits)
qed

lemma wf_no_tenth:
  assumes "wellformed p"
  shows "applyOpponentMoveIfExists R p 5 g = g"
  using assms by (simp add: applyOpponentMoveIfExists_def wellformed_def at_index_def)

lemma squares_rejoin: "length u = 4 \<Longrightarrow> take 2 u @ take 2 (drop 2 u) = u"
proof -
  assume "length u = 4"
  then have "take 2 (drop 2 u) = drop 2 u" by simp
  then show ?thesis by simp
qed

section \<open>Lemmas about the session\<close>

subsection \<open>The four ways through tryPlayerMove\<close>

lemma tryPlayerMove_done: "done_st s \<Longrightarrow> tryPlayerMove R p now f t s = s"
  by (simp add: tryPlayerMove_def)

lemma tryPlayerMove_illegal:
  "chess_move R (game s) f t (CHR ''q'') = None \<Longrightarrow> tryPlayerMove R p now f t s = s"
  by (simp add: tryPlayerMove_def)

lemma tryPlayerMove_wrong:
  assumes "\<not> done_st s"
    and "chess_move R (game s) f t (CHR ''q'') = Some (m, g1)"
    and "toLowerCase (from_sq m @ to_sq m) \<noteq> toLowerCase (nextPlayerUci p s)"
  shows "tryPlayerMove R p now f t s =
     (startTimerIfNeeded now s)\<lparr>game := chess_new R (chess_fen R (chess_undo R g1)),
        mistakes := mistakes s + 1, hintStage := 0\<rparr>"
  using assms by (simp add: tryPlayerMove_def Let_def)

lemma tryPlayerMove_right:
  assumes "\<not> done_st s"
    and "chess_move R (game s) f t (CHR ''q'') = Some (m, g1)"
    and "toLowerCase (from_sq m @ to_sq m) = toLowerCase (nextPlayerUci p s)"
  shows "tryPlayerMove R p now f t s =
     (startTimerIfNeeded now s)\<lparr>
        game := applyOpponentMoveIfExists R p (playerMoveIndex s + 1)
                  (chess_new R (chess_fen R g1)),
        selected := None, hintStage := 0, playerMoveIndex := playerMoveIndex s + 1,
        done_st := (5 \<le> playerMoveIndex s + 1)\<rparr>"
  using assms by (simp add: tryPlayerMove_def Let_def REQUIRED_PLAYER_MOVES_def)

lemma startTimer_fields [simp]:
  "game (startTimerIfNeeded now s) = game s"
  "playerMoveIndex (startTimerIfNeeded now s) = playerMoveIndex s"
  "mistakes (startTimerIfNeeded now s) = mistakes s"
  "done_st (startTimerIfNeeded now s) = done_st s"
  "hintStage (startTimerIfNeeded now s) = hintStage s"
  "name (startTimerIfNeeded now s) = name s"
  "timeMs (startTimerIfNeeded now s) = timeMs s"
  "selected (startTimerIfNeeded now s) = selected s"
  by (simp_all add: startTimerIfNeeded_def)

lemma startTimer_startRef:
  "startRef (startTimerIfNeeded now s) = (if truthy (startRef s) then startRef s else Some now)"
  by (simp add: startTimerIfNeeded_def)

lemma tryPlayerMove_startRef_cases:
  "startRef (tryPlayerMove R p now f t s) =
     (if done_st s \<or> chess_move R (game s) f t (CHR ''q'') = None \<or> truthy (startRef s)
      then startRef s else Some now)"
  by (auto simp: tryPlayerMove_def Let_def startTimer_startRef split: option.splits)

subsection \<open>Sequences of events\<close>

lemma run_append: "run R p (es @ es') s = run R p es' (run R p es s)"
  by (induction es arbitrary: s) simp_all

lemma hintClick_done: "done_st s \<Longrightarrow> hintClick p s = s"
  by (simp add: hintClick_def)

lemma tick_done: "done_st s \<Longrightarrow> tick now s = s"
  by (simp add: tick_def split: option.splits)

lemma step_done_fields:
  assumes "done_st s" and "e \<noteq> Restart"
  shows "done_st (step R p e s)" "game (step R p e s) = game s"
    "playerMoveIndex (step R p e s) = playerMoveIndex s"
    "mistakes (step R p e s) = mistakes s" "hintStage (step R p e s) = hintStage s"
    "startRef (step R p e s) = startRef s" "timeMs (step R p e s) = timeMs s"
  using assms
  by (cases e; simp add: tryPlayerMove_done hintClick_done tick_done setName_def)+

lemma run_done:
  "done_st s \<Longrightarrow> Restart \<notin> set es \<Longrightarrow>
   done_st (run R p es s) \<and> game (run R p es s) = game s
   \<and> playerMoveIndex (run R p es s) = playerMoveIndex s
   \<and> mistakes (run R p es s) = mistakes s \<and> hintStage (run R p es s) = hintStage s
   \<and> startRef (run R p es s) = startRef s \<and> timeMs (run R p es s) = timeMs s"
proof (induction es arbitrary: s)
  case Nil
  then show ?case by simp
next
  case (Cons e es)
  then have ne: "e \<noteq> Restart" and rest: "Restart \<notin> set es" by auto
  note f = step_done_fields [OF Cons.prems(1) ne, of R p]
  from Cons.IH [OF f(1) rest] f show ?case by simp
qed

subsection \<open>The timer reference\<close>

lemma step_keeps_started:
  assumes "startRef s = Some t0" and "t0 \<noteq> 0" and "e \<noteq> Restart"
  shows "startRef (step R p e s) = Some t0"
proof (cases e)
  case (Attempt now f t)
  then show ?thesis
    using assms by (simp add: tryPlayerMove_startRef_cases truthy_def)
next
  case HintClick
  then show ?thesis using assms by (simp add: hintClick_def)
next
  case Restart
  then show ?thesis using assms by simp
next
  case (Tick now)
  then show ?thesis using assms by (simp add: tick_def)
next
  case (SetName n)
  then show ?thesis using assms by (simp add: setName_def)
qed

lemma run_keeps_started:
  "startRef s = Some t0 \<Longrightarrow> t0 \<noteq> 0 \<Longrightarrow> Restart \<notin> set es \<Longrightarrow>
   startRef (run R p es s) = Some t0"
proof (induction es arbitrary: s)
  case Nil
  then show ?case by simp
next
  case (Cons e es)
  from Cons.prems have "startRef (step R p e s) = Some t0"
    by (intro step_keeps_started) auto
  with Cons show ?case by simp
qed

lemma step_quiet:
  assumes "quiet R (game s) e" and "startRef s = None"
  shows "startRef (step R p e s) = None \<and> game (step R p e s) = game s
         \<and> done_st (step R p e s) = done_st s"
  using assms
  by (cases e) (simp_all add: tryPlayerMove_illegal hintClick_def tick_def setName_def)

lemma run_quiet:
  "\<forall>e \<in> set es. quiet R (game s) e \<Longrightarrow> startRef s = None \<Longrightarrow>
   startRef (run R p es s) = None \<and> game (run R p es s) = game s
   \<and> done_st (run R p es s) = done_st s"
proof (induction es arbitrary: s)
  case Nil
  then show ?case by simp
next
  case (Cons e es)
  have st: "startRef (step R p e s) = None \<and> game (step R p e s) = game s
         \<and> done_st (step R p e s) = done_st s"
    using Cons.prems by (intro step_quiet) auto
  then have "\<forall>e' \<in> set es. quiet R (game (step R p e s)) e'"
    using Cons.prems(1) by simp
  from Cons.IH [OF this] st show ?case by simp
qed

lemma step_never_clears:
  assumes "startRef s \<noteq> None" and "e \<noteq> Restart"
  shows "startRef (step R p e s) \<noteq> None"
  using assms
  by (cases e) (auto simp: tryPlayerMove_startRef_cases hintClick_def tick_def setName_def
      split: option.splits)

subsection \<open>Ranges\<close>

lemma nextHintStage_le: "nextHintStage h \<le> 2"
  by (simp add: nextHintStage_def)

lemma inv_initial: "session_inv (initial R p)"
  by (simp add: session_inv_def initial_def)

lemma inv_tryPlayerMove: "session_inv s \<Longrightarrow> session_inv (tryPlayerMove R p now f t s)"
  by (auto simp: session_inv_def tryPlayerMove_def Let_def REQUIRED_PLAYER_MOVES_def
      split: option.splits)

lemma inv_step: "session_inv s \<Longrightarrow> session_inv (step R p e s)"
proof (cases e)
  case (Attempt now f t)
  assume "session_inv s"
  then show ?thesis using Attempt by (simp add: inv_tryPlayerMove)
next
  case HintClick
  assume "session_inv s"
  then show ?thesis using HintClick
    by (simp add: session_inv_def hintClick_def nextHintStage_le)
next
  case Restart
  show ?thesis using Restart by (simp add: session_inv_def restartPuzzle_def)
next
  case (Tick now)
  assume "session_inv s"
  then show ?thesis using Tick by (simp add: session_inv_def tick_def split: option.splits)
next
  case (SetName n)
  assume "session_inv s"
  then show ?thesis using SetName by (simp add: session_inv_def setName_def)
qed

lemma inv_run: "session_inv s \<Longrightarrow> session_inv (run R p es s)"
  by (induction es arbitrary: s) (simp_all add: inv_step)

lemma awaiting_not_done:
  "playerMoveIndex (run R p es (initial R p)) < 5 \<Longrightarrow> \<not> done_st (run R p es (initial R p))"
  using inv_run [OF inv_initial, of R p es] by (simp add: session_inv_def)

subsection \<open>One correct move, and the rest of the line\<close>

lemma solution_step:
  assumes wf: "wellformed p" and echo: "echoes_squares R"
    and k: "playerMoveIndex s < 5" and nd: "\<not> done_st s"
    and legal: "chess_move R (game s) (uci_from (parseUci (solutionEntry p (2 * playerMoveIndex s))))
                  (uci_to (parseUci (solutionEntry p (2 * playerMoveIndex s)))) (CHR ''q'') \<noteq> None"
  shows "playerMoveIndex (tryPlayerMove R p now
            (uci_from (parseUci (solutionEntry p (2 * playerMoveIndex s))))
            (uci_to (parseUci (solutionEntry p (2 * playerMoveIndex s)))) s) = Suc (playerMoveIndex s)
       \<and> mistakes (tryPlayerMove R p now
            (uci_from (parseUci (solutionEntry p (2 * playerMoveIndex s))))
            (uci_to (parseUci (solutionEntry p (2 * playerMoveIndex s)))) s) = mistakes s
       \<and> done_st (tryPlayerMove R p now
            (uci_from (parseUci (solutionEntry p (2 * playerMoveIndex s))))
            (uci_to (parseUci (solutionEntry p (2 * playerMoveIndex s)))) s) = (5 \<le> Suc (playerMoveIndex s))"
proof -
  let ?u = "solution p ! (2 * playerMoveIndex s)"
  have lt: "2 * playerMoveIndex s < 9" using k by simp
  have entry: "solutionEntry p (2 * playerMoveIndex s) = ?u"
    unfolding solutionEntry_def wf_entry(1) [OF wf lt] by simp
  have len: "length ?u = 4" by (rule wf_entry(2) [OF wf lt])
  have sq: "uci_from (parseUci ?u) @ uci_to (parseUci ?u) = ?u"
    using squares_rejoin [OF len] by (simp add: parseUci_def)
  from legal obtain m g1 where mv:
    "chess_move R (game s) (uci_from (parseUci ?u)) (uci_to (parseUci ?u)) (CHR ''q'') = Some (m, g1)"
    unfolding entry by fastforce
  have "from_sq m = uci_from (parseUci ?u) \<and> to_sq m = uci_to (parseUci ?u)"
    using echo mv unfolding echoes_squares_def by blast
  then have same: "toLowerCase (from_sq m @ to_sq m) = toLowerCase (nextPlayerUci p s)"
    by (simp add: sq wf_nextPlayerUci [OF wf k])
  show ?thesis
    unfolding entry by (simp add: tryPlayerMove_right [OF nd mv same])
qed

lemma replay_from:
  assumes wf: "wellformed p" and echo: "echoes_squares R"
  shows "playerMoveIndex s = k \<Longrightarrow> done_st s = (5 \<le> k) \<Longrightarrow> k + length nows = 5 \<Longrightarrow>
         all_legal R p (solutionAttempts p k nows) s \<Longrightarrow>
         done_st (run R p (solutionAttempts p k nows) s)
         \<and> mistakes (run R p (solutionAttempts p k nows) s) = mistakes s
         \<and> playerMoveIndex (run R p (solutionAttempts p k nows) s) = 5"
proof (induction nows arbitrary: k s)
  case Nil
  then show ?case by simp
next
  case (Cons now nows)
  let ?f = "uci_from (parseUci (solutionEntry p (2 * playerMoveIndex s)))"
  let ?t = "uci_to (parseUci (solutionEntry p (2 * playerMoveIndex s)))"
  let ?s' = "tryPlayerMove R p now ?f ?t s"
  from Cons.prems have k: "playerMoveIndex s < 5" and nd: "\<not> done_st s" by auto
  from Cons.prems have legal: "chess_move R (game s) ?f ?t (CHR ''q'') \<noteq> None"
    and rest: "all_legal R p (solutionAttempts p (Suc k) nows) ?s'"
    by auto
  note st = solution_step [OF wf echo k nd legal, of now]
  have "done_st (run R p (solutionAttempts p (Suc k) nows) ?s')
         \<and> mistakes (run R p (solutionAttempts p (Suc k) nows) ?s') = mistakes ?s'
         \<and> playerMoveIndex (run R p (solutionAttempts p (Suc k) nows) ?s') = 5"
  proof (rule Cons.IH)
    show "playerMoveIndex ?s' = Suc k" using st Cons.prems(1) by simp
    show "done_st ?s' = (5 \<le> Suc k)" using st Cons.prems(1) by simp
    show "Suc k + length nows = 5" using Cons.prems(3) by simp
    show "all_legal R p (solutionAttempts p (Suc k) nows) ?s'" by (rule rest)
  qed
  then show ?case
    using st Cons.prems(1) by simp
qed

subsection \<open>The scripted engine keeps the rules library's laws\<close>

lemma line_echoes: "echoes_squares lineRules"
  by (auto simp: echoes_squares_def lineRules_def line_move_def split: option.splits)

lemma line_undo_restores: "undo_restores lineRules"
  by (auto simp: undo_restores_def lineRules_def line_move_def line_undo_def split: option.splits)

lemma line_reload_stable: "reload_stable lineRules"
  by (simp add: reload_stable_def lineRules_def)

section \<open>The claims\<close>

subsection \<open>C1: replaying the solution\<close>

text \<open>
  Claim C1. For every puzzle of the catalog, from a session at slot 0 with no mistakes
  that is not complete (the initial state is one), playing the five player half-moves
  \<open>solution[0]\<close>, \<open>solution[2]\<close>, \<open>solution[4]\<close>, \<open>solution[6]\<close>, \<open>solution[8]\<close>
  in order, each accepted by the rules library in the position where it is played, ends
  with the session complete and the mistake count 0. The library is assumed to report
  the squares it was asked to move between, as chess.js does.
\<close>

theorem solution_completes:
  assumes "p \<in> set PUZZLES"
    and "echoes_squares R"
    and "playerMoveIndex s = 0" and "mistakes s = 0" and "\<not> done_st s"
    and "length nows = 5"
    and "all_legal R p (solutionAttempts p 0 nows) s"
  shows "done_st (run R p (solutionAttempts p 0 nows) s)
       \<and> mistakes (run R p (solutionAttempts p 0 nows) s) = 0"
  using replay_from [OF catalog_wellformed [OF assms(1)] assms(2), of s 0 nows] assms(3-7)
  by simp

text \<open>
  The catalog's puzzle on the scripted engine: the five attempts are c3-d4, b1-c3, e1-g1,
  b2-c3 and f1-e1, all accepted, and the session ends complete without a mistake.
\<close>

theorem solution_completes_witness:
  "italian \<in> set PUZZLES
   \<and> start0 = initial lineRules italian
   \<and> all_legal lineRules italian (solutionAttempts italian 0 [1000, 2000, 3000, 4000, 5000]) start0
   \<and> solutionAttempts italian 0 [1000, 2000, 3000, 4000, 5000] =
       [Attempt 1000 ''c3'' ''d4'', Attempt 2000 ''b1'' ''c3'', Attempt 3000 ''e1'' ''g1'',
        Attempt 4000 ''b2'' ''c3'', Attempt 5000 ''f1'' ''e1'']
   \<and> done_st (run lineRules italian (solutionAttempts italian 0 [1000, 2000, 3000, 4000, 5000]) start0)
   \<and> mistakes (run lineRules italian (solutionAttempts italian 0 [1000, 2000, 3000, 4000, 5000]) start0) = 0"
proof -
  have idx: "playerMoveIndex start0 = 0" by code_simp
  have mis: "mistakes start0 = 0" by code_simp
  have nd: "\<not> done_st start0" by code_simp
  have len: "length [1000, 2000, 3000, 4000, 5000 :: int] = 5" by simp
  have legal: "all_legal lineRules italian
      (solutionAttempts italian 0 [1000, 2000, 3000, 4000, 5000]) start0"
    by code_simp
  have moves: "solutionAttempts italian 0 [1000, 2000, 3000, 4000, 5000] =
       [Attempt 1000 ''c3'' ''d4'', Attempt 2000 ''b1'' ''c3'', Attempt 3000 ''e1'' ''g1'',
        Attempt 4000 ''b2'' ''c3'', Attempt 5000 ''f1'' ''e1'']"
    by code_simp
  note res = solution_completes [OF italian_in_catalog line_echoes idx mis nd len legal]
  from italian_in_catalog legal moves res show ?thesis
    by (simp add: start0_def)
qed

subsection \<open>C2: a legal move off the line\<close>

text \<open>
  Claim C2. In a session that awaits the move of slot \<open>slot\<close>, an attempt that the
  rules library accepts but whose lower-cased from+to string differs from the expected
  entry \<open>solution[slot*2]\<close> (lower-cased, as the code compares them) raises the mistake
  count by exactly 1, leaves the slot where it was, puts the board back to the encoding
  it had before the move and sets the hint stage to 0. A session that awaits a move is
  not complete: every reachable session with a slot below 5 is such
  (lemma \<open>awaiting_not_done\<close>). That the board is back assumes of the library that
  \<open>undo\<close> restores the encoding and that loading an encoding the library produced
  gives that encoding again.
\<close>

theorem wrong_move_is_mistake:
  assumes "\<not> done_st s"
    and "chess_move R (game s) f t (CHR ''q'') = Some (m, g1)"
    and "toLowerCase (from_sq m @ to_sq m) \<noteq> toLowerCase (nextPlayerUci p s)"
    and "undo_restores R"
    and "reload_stable R"
  shows "mistakes (tryPlayerMove R p now f t s) = mistakes s + 1
       \<and> playerMoveIndex (tryPlayerMove R p now f t s) = playerMoveIndex s
       \<and> chess_fen R (game (tryPlayerMove R p now f t s)) = chess_fen R (game s)
       \<and> hintStage (tryPlayerMove R p now f t s) = 0
       \<and> \<not> done_st (tryPlayerMove R p now f t s)"
proof -
  have undo: "chess_fen R (chess_undo R g1) = chess_fen R (game s)"
    using assms(2,4) unfolding undo_restores_def by blast
  have "chess_fen R (chess_new R (chess_fen R (chess_undo R g1))) = chess_fen R (chess_undo R g1)"
    using assms(5) unfolding reload_stable_def by blast
  with undo have board:
    "chess_fen R (chess_new R (chess_fen R (chess_undo R g1))) = chess_fen R (game s)"
    by simp
  show ?thesis
    using assms(1) board by (simp add: tryPlayerMove_wrong [OF assms(1-3)])
qed

text \<open>
  On the catalog's puzzle with both hint squares shown: h2-h3 is legal and is not the
  expected c3-d4.
\<close>

theorem wrong_move_is_mistake_witness:
  "hintStage hinted = 2 \<and> mistakes hinted = 0
   \<and> nextPlayerUci italian hinted = ''c3d4''
   \<and> chess_move lineRules (game hinted) ''h2'' ''h3'' (CHR ''q'') =
       Some (\<lparr>from_sq = ''h2'', to_sq = ''h3''\<rparr>,
             \<lparr>pos = ''r1bqk2r/pppp1ppp/2n2n2/2b5/2BpP3/2P2N1P/PP3PP1/RNBQK2R b KQkq - 0 6'',
              past = [''r1bqk2r/pppp1ppp/2n2n2/2b5/2BpP3/2P2N2/PP3PPP/RNBQK2R w KQkq - 0 6'']\<rparr>)
   \<and> mistakes (tryPlayerMove lineRules italian 1000 ''h2'' ''h3'' hinted) = 1
   \<and> playerMoveIndex (tryPlayerMove lineRules italian 1000 ''h2'' ''h3'' hinted) = 0
   \<and> chess_fen lineRules (game (tryPlayerMove lineRules italian 1000 ''h2'' ''h3'' hinted)) =
       ''r1bqk2r/pppp1ppp/2n2n2/2b5/2BpP3/2P2N2/PP3PPP/RNBQK2R w KQkq - 0 6''
   \<and> hintStage (tryPlayerMove lineRules italian 1000 ''h2'' ''h3'' hinted) = 0"
proof -
  let ?m = "\<lparr>from_sq = ''h2'', to_sq = ''h3''\<rparr>"
  let ?g1 = "\<lparr>pos = ''r1bqk2r/pppp1ppp/2n2n2/2b5/2BpP3/2P2N1P/PP3PP1/RNBQK2R b KQkq - 0 6'',
              past = [''r1bqk2r/pppp1ppp/2n2n2/2b5/2BpP3/2P2N2/PP3PPP/RNBQK2R w KQkq - 0 6'']\<rparr>"
  have nd: "\<not> done_st hinted" by code_simp
  have mv: "chess_move lineRules (game hinted) ''h2'' ''h3'' (CHR ''q'') = Some (?m, ?g1)"
    by code_simp
  have ne: "toLowerCase (from_sq ?m @ to_sq ?m) \<noteq> toLowerCase (nextPlayerUci italian hinted)"
    by code_simp
  have before: "hintStage hinted = 2" "mistakes hinted = 0" "playerMoveIndex hinted = 0"
    "nextPlayerUci italian hinted = ''c3d4''"
    "chess_fen lineRules (game hinted) =
       ''r1bqk2r/pppp1ppp/2n2n2/2b5/2BpP3/2P2N2/PP3PPP/RNBQK2R w KQkq - 0 6''"
    by code_simp+
  note res = wrong_move_is_mistake [OF nd mv ne line_undo_restores line_reload_stable, of 1000]
  from res mv before show ?thesis
    by simp
qed

subsection \<open>C3: a move on the line\<close>

text \<open>
  Claim C3. On a catalog puzzle, a correct move at slot \<open>n\<close> advances the slot to
  \<open>n + 1\<close> and counts no mistake. When \<open>n + 1 < 5\<close> the session is not complete and
  the scripted reply \<open>solution[(n+1)*2 - 1]\<close> is handed to the rules library on the
  position reloaded from the encoding after the player's move, with nothing compared
  against it: the board is what the library makes of it (the position after the reply
  when the library applies it, the position after the player's move alone when it
  answers null). When \<open>n + 1 = 5\<close> no reply is played, the board is the position after
  the player's move and the session is complete.
\<close>

theorem correct_move_advances:
  assumes "p \<in> set PUZZLES"
    and "\<not> done_st s"
    and "playerMoveIndex s = n"
    and "n < 5"
    and "chess_move R (game s) f t (CHR ''q'') = Some (m, g1)"
    and "toLowerCase (from_sq m @ to_sq m) = toLowerCase (nextPlayerUci p s)"
  shows "playerMoveIndex (tryPlayerMove R p now f t s) = n + 1
       \<and> mistakes (tryPlayerMove R p now f t s) = mistakes s
       \<and> (n + 1 < 5 \<longrightarrow>
            \<not> done_st (tryPlayerMove R p now f t s)
            \<and> (\<forall>m2 g2. chess_move R (chess_new R (chess_fen R g1))
                          (take 2 (solution p ! ((n + 1) * 2 - 1)))
                          (take 2 (drop 2 (solution p ! ((n + 1) * 2 - 1)))) (CHR ''q'')
                        = Some (m2, g2)
                  \<longrightarrow> game (tryPlayerMove R p now f t s) = g2)
            \<and> (chess_move R (chess_new R (chess_fen R g1))
                          (take 2 (solution p ! ((n + 1) * 2 - 1)))
                          (take 2 (drop 2 (solution p ! ((n + 1) * 2 - 1)))) (CHR ''q'')
                        = None
                  \<longrightarrow> game (tryPlayerMove R p now f t s) = chess_new R (chess_fen R g1)))
       \<and> (n + 1 = 5 \<longrightarrow>
            done_st (tryPlayerMove R p now f t s)
            \<and> game (tryPlayerMove R p now f t s) = chess_new R (chess_fen R g1))"
proof -
  have wf: "wellformed p"
    by (rule catalog_wellformed [OF assms(1)])
  note eq = tryPlayerMove_right [OF assms(2) assms(5) assms(6), of now]
  have idx: "(n + 1) * 2 - 1 = Suc (2 * n)" by simp
  have last: "n + 1 = 5 \<longrightarrow>
            done_st (tryPlayerMove R p now f t s)
            \<and> game (tryPlayerMove R p now f t s) = chess_new R (chess_fen R g1)"
    using assms(3) by (simp add: eq wf_no_tenth [OF wf])
  have mid: "n + 1 < 5 \<longrightarrow>
            \<not> done_st (tryPlayerMove R p now f t s)
            \<and> game (tryPlayerMove R p now f t s) =
                (case chess_move R (chess_new R (chess_fen R g1))
                        (take 2 (solution p ! Suc (2 * n)))
                        (take 2 (drop 2 (solution p ! Suc (2 * n)))) (CHR ''q'') of
                   None \<Rightarrow> chess_new R (chess_fen R g1) | Some (m2, g2) \<Rightarrow> g2)"
    using assms(3) by (auto simp: eq wf_reply [OF wf])
  have front: "playerMoveIndex (tryPlayerMove R p now f t s) = n + 1
       \<and> mistakes (tryPlayerMove R p now f t s) = mistakes s"
    using assms(3) by (simp add: eq)
  show ?thesis
    unfolding idx using front mid last by (auto split: option.splits)
qed

text \<open>
  On the catalog's puzzle: after c3-d4 at slot 0 the board holds the reply c5-b4 as well
  and the slot is 1; after f1-e1 at slot 4 the board holds that move alone and the
  session is complete.
\<close>

theorem correct_move_advances_witness:
  "playerMoveIndex (tryPlayerMove lineRules italian 1000 ''c3'' ''d4'' start0) = 1
   \<and> \<not> done_st (tryPlayerMove lineRules italian 1000 ''c3'' ''d4'' start0)
   \<and> game (tryPlayerMove lineRules italian 1000 ''c3'' ''d4'' start0) =
       \<lparr>pos = ''r1bqk2r/pppp1ppp/2n2n2/8/1bBPP3/5N2/PP3PPP/RNBQK2R w KQkq - 1 7'',
        past = [''r1bqk2r/pppp1ppp/2n2n2/2b5/2BPP3/5N2/PP3PPP/RNBQK2R b KQkq - 0 6'']\<rparr>
   \<and> playerMoveIndex afterFour = 4
   \<and> playerMoveIndex (tryPlayerMove lineRules italian 5000 ''f1'' ''e1'' afterFour) = 5
   \<and> done_st (tryPlayerMove lineRules italian 5000 ''f1'' ''e1'' afterFour)
   \<and> game (tryPlayerMove lineRules italian 5000 ''f1'' ''e1'' afterFour) =
       \<lparr>pos = ''r1bqk2r/pppp1ppp/2n5/b7/2BP4/2P2N2/P4PPP/R1BQR1K1 b kq - 2 10'', past = []\<rparr>"
proof -
  let ?m = "\<lparr>from_sq = ''c3'', to_sq = ''d4''\<rparr>"
  let ?g1 = "\<lparr>pos = ''r1bqk2r/pppp1ppp/2n2n2/2b5/2BPP3/5N2/PP3PPP/RNBQK2R b KQkq - 0 6'',
              past = [''r1bqk2r/pppp1ppp/2n2n2/2b5/2BpP3/2P2N2/PP3PPP/RNBQK2R w KQkq - 0 6'']\<rparr>"
  let ?m2 = "\<lparr>from_sq = ''c5'', to_sq = ''b4''\<rparr>"
  let ?g2 = "\<lparr>pos = ''r1bqk2r/pppp1ppp/2n2n2/8/1bBPP3/5N2/PP3PPP/RNBQK2R w KQkq - 1 7'',
              past = [''r1bqk2r/pppp1ppp/2n2n2/2b5/2BPP3/5N2/PP3PPP/RNBQK2R b KQkq - 0 6'']\<rparr>"
  have nd0: "\<not> done_st start0" by code_simp
  have idx0: "playerMoveIndex start0 = 0" by code_simp
  have mv0: "chess_move lineRules (game start0) ''c3'' ''d4'' (CHR ''q'') = Some (?m, ?g1)"
    by code_simp
  have same0: "toLowerCase (from_sq ?m @ to_sq ?m) = toLowerCase (nextPlayerUci italian start0)"
    by code_simp
  have reply: "chess_move lineRules (chess_new lineRules (chess_fen lineRules ?g1))
                 (take 2 (solution italian ! ((0 + 1) * 2 - 1)))
                 (take 2 (drop 2 (solution italian ! ((0 + 1) * 2 - 1)))) (CHR ''q'')
               = Some (?m2, ?g2)"
    by code_simp
  have first: "playerMoveIndex (tryPlayerMove lineRules italian 1000 ''c3'' ''d4'' start0) = 1
     \<and> \<not> done_st (tryPlayerMove lineRules italian 1000 ''c3'' ''d4'' start0)
     \<and> game (tryPlayerMove lineRules italian 1000 ''c3'' ''d4'' start0) = ?g2"
    using correct_move_advances [OF italian_in_catalog nd0 idx0 _ mv0 same0, of 1000] reply
    by simp
  let ?m5 = "\<lparr>from_sq = ''f1'', to_sq = ''e1''\<rparr>"
  let ?g5 = "\<lparr>pos = ''r1bqk2r/pppp1ppp/2n5/b7/2BP4/2P2N2/P4PPP/R1BQR1K1 b kq - 2 10'',
              past = [''r1bqk2r/pppp1ppp/2n5/b7/2BP4/2P2N2/P4PPP/R1BQ1RK1 w kq - 1 10'',
                      ''r1bqk2r/pppp1ppp/2n5/8/1bBP4/2P2N2/P4PPP/R1BQ1RK1 b kq - 0 9'']\<rparr>"
  have nd4: "\<not> done_st afterFour" by code_simp
  have idx4: "playerMoveIndex afterFour = 4" by code_simp
  have mv4: "chess_move lineRules (game afterFour) ''f1'' ''e1'' (CHR ''q'') = Some (?m5, ?g5)"
    by code_simp
  have same4: "toLowerCase (from_sq ?m5 @ to_sq ?m5) = toLowerCase (nextPlayerUci italian afterFour)"
    by code_simp
  have fifth: "playerMoveIndex (tryPlayerMove lineRules italian 5000 ''f1'' ''e1'' afterFour) = 5
     \<and> done_st (tryPlayerMove lineRules italian 5000 ''f1'' ''e1'' afterFour)
     \<and> game (tryPlayerMove lineRules italian 5000 ''f1'' ''e1'' afterFour) =
         chess_new lineRules (chess_fen lineRules ?g5)"
    using correct_move_advances [OF italian_in_catalog nd4 idx4 _ mv4 same4, of 5000]
    by simp
  have reload: "chess_new lineRules (chess_fen lineRules ?g5) =
       \<lparr>pos = ''r1bqk2r/pppp1ppp/2n5/b7/2BP4/2P2N2/P4PPP/R1BQR1K1 b kq - 2 10'', past = []\<rparr>"
    by code_simp
  from first fifth idx4 reload show ?thesis
    by simp
qed

subsection \<open>C4: an illegal attempt\<close>

text \<open>
  Claim C4. An attempt that the rules library rejects (it answers null) leaves the whole
  session state as it was: the board's encoding, the slot, the mistake count, the
  completion flag, the hint stage and the timer reference. The function has no other
  result, so no error is surfaced.
\<close>

theorem illegal_attempt_no_change:
  assumes "chess_move R (game s) f t (CHR ''q'') = None"
  shows "tryPlayerMove R p now f t s = s
       \<and> chess_fen R (game (tryPlayerMove R p now f t s)) = chess_fen R (game s)
       \<and> playerMoveIndex (tryPlayerMove R p now f t s) = playerMoveIndex s
       \<and> mistakes (tryPlayerMove R p now f t s) = mistakes s
       \<and> done_st (tryPlayerMove R p now f t s) = done_st s
       \<and> hintStage (tryPlayerMove R p now f t s) = hintStage s
       \<and> startRef (tryPlayerMove R p now f t s) = startRef s"
  using assms by (simp add: tryPlayerMove_illegal)

text \<open>
  On the catalog's puzzle with both hint squares shown: the pawn on c3 cannot move to c4,
  where the bishop stands.
\<close>

theorem illegal_attempt_no_change_witness:
  "chess_move lineRules (game hinted) ''c3'' ''c4'' (CHR ''q'') = None
   \<and> tryPlayerMove lineRules italian 1000 ''c3'' ''c4'' hinted = hinted
   \<and> hintStage (tryPlayerMove lineRules italian 1000 ''c3'' ''c4'' hinted) = 2
   \<and> startRef (tryPlayerMove lineRules italian 1000 ''c3'' ''c4'' hinted) = None"
proof -
  have rej: "chess_move lineRules (game hinted) ''c3'' ''c4'' (CHR ''q'') = None"
    by code_simp
  have before: "hintStage hinted = 2" "startRef hinted = None"
    by code_simp+
  from illegal_attempt_no_change [OF rej, of italian 1000] rej before show ?thesis
    by simp
qed

subsection \<open>C5: the hint stage\<close>

text \<open>
  Claim C5 says that the hint stage cycles 0, 1, 2, 0 on hint requests and that any move
  attempt resets it to 0. The cycle holds. The reset does not hold for every attempt: an
  attempt the library rejects returns before the reset. Here one hint square is shown,
  c3-c4 is tried, and the stage is still 1.
\<close>

theorem hint_not_reset_counterexample:
  "hintStage (hintClick italian start0) = 1
   \<and> chess_move lineRules (game (hintClick italian start0)) ''c3'' ''c4'' (CHR ''q'') = None
   \<and> hintStage (tryPlayerMove lineRules italian 1000 ''c3'' ''c4'' (hintClick italian start0)) = 1
   \<and> hintStage (tryPlayerMove lineRules italian 1000 ''c3'' ''c4'' (hintClick italian start0)) \<noteq> 0"
  by code_simp

text \<open>
  Claim C5, amended. A hint request, enabled while the session is not complete and the
  next expected move has at least four characters, takes stage 0 to 1, 1 to 2 and any
  other stage to 0; a disabled request changes nothing. An attempt that the library
  accepts in a session that is not complete sets the stage to 0, whether the move is the
  expected one or not. An attempt the library rejects, and any attempt once the session
  is complete, leaves the stage as it was.
\<close>

theorem hint_cycle_and_reset:
  "(\<not> done_st s \<and> hintSquares p s \<noteq> None \<longrightarrow>
      hintStage (hintClick p s) = (if hintStage s = 0 then 1 else if hintStage s = 1 then 2 else 0))
   \<and> (done_st s \<or> hintSquares p s = None \<longrightarrow> hintClick p s = s)
   \<and> (\<not> done_st s \<and> chess_move R (game s) f t (CHR ''q'') \<noteq> None \<longrightarrow>
        hintStage (tryPlayerMove R p now f t s) = 0)
   \<and> (done_st s \<or> chess_move R (game s) f t (CHR ''q'') = None \<longrightarrow>
        hintStage (tryPlayerMove R p now f t s) = hintStage s)"
proof -
  have a: "\<not> done_st s \<and> hintSquares p s \<noteq> None \<longrightarrow>
      hintStage (hintClick p s) = (if hintStage s = 0 then 1 else if hintStage s = 1 then 2 else 0)"
    by (simp add: hintClick_def nextHintStage_def)
  have b: "done_st s \<or> hintSquares p s = None \<longrightarrow> hintClick p s = s"
    by (simp add: hintClick_def)
  have c: "\<not> done_st s \<and> chess_move R (game s) f t (CHR ''q'') \<noteq> None \<longrightarrow>
        hintStage (tryPlayerMove R p now f t s) = 0"
    by (auto simp: tryPlayerMove_def Let_def)
  have d: "done_st s \<or> chess_move R (game s) f t (CHR ''q'') = None \<longrightarrow>
        hintStage (tryPlayerMove R p now f t s) = hintStage s"
    by (auto simp: tryPlayerMove_done tryPlayerMove_illegal)
  from a b c d show ?thesis by blast
qed

text \<open>
  With both hint squares shown, a request hides them and the legal h2-h3 resets the stage;
  in the solved session the request is disabled and an attempt changes nothing.
\<close>

theorem hint_cycle_and_reset_witness:
  "hintStage hinted = 2 \<and> hintSquares italian hinted = Some (''c3'', ''d4'')
   \<and> hintStage (hintClick italian hinted) = 0
   \<and> hintStage (tryPlayerMove lineRules italian 1000 ''h2'' ''h3'' hinted) = 0
   \<and> done_st solved
   \<and> hintClick italian solved = solved
   \<and> hintStage (tryPlayerMove lineRules italian 6000 ''h2'' ''h3'' solved) = hintStage solved"
proof -
  have h: "\<not> done_st hinted" "hintSquares italian hinted = Some (''c3'', ''d4'')"
    "hintStage hinted = 2"
    "chess_move lineRules (game hinted) ''h2'' ''h3'' (CHR ''q'') \<noteq> None"
    by code_simp+
  have d: "done_st solved" by code_simp
  from hint_cycle_and_reset [of hinted italian lineRules "''h2''" "''h3''" 1000]
    hint_cycle_and_reset [of solved italian lineRules "''h2''" "''h3''" 6000] h d
  show ?thesis
    by simp
qed

subsection \<open>C6: the weekly pick\<close>

text \<open>
  Claim C6. For every week key the puzzle picked is \<open>PUZZLES[h mod catalogSize]\<close>, where
  \<open>h\<close> starts at 0 and becomes \<open>h * 31 + charCode\<close> in unsigned 32-bit arithmetic for
  each character. So the pick is a function of the week key, two week keys in the same
  hash bucket pick the same puzzle, and for a catalog that is not empty the index is a
  valid one. Stated for any catalog that is not empty, and for the catalog of the
  repository, which is not.
\<close>

theorem pick_by_hash:
  assumes "catalog \<noteq> []"
  shows "pickFrom catalog wk = Some (catalog ! (unat (spec_hash wk) mod length catalog))
       \<and> unat (spec_hash wk) mod length catalog < length catalog
       \<and> (unat (spec_hash wk) mod length catalog = unat (spec_hash wk') mod length catalog
            \<longrightarrow> pickFrom catalog wk' = pickFrom catalog wk)
       \<and> pickWeeklyPuzzle wk = pickFrom PUZZLES wk \<and> PUZZLES \<noteq> []"
  using assms by (simp add: pickFrom_index weekHash_spec pickWeeklyPuzzle_def PUZZLES_def)

text \<open>The week keys 2026-11-02 and 2026-11-09 on the repository's catalog.\<close>

theorem pick_by_hash_witness:
  "PUZZLES \<noteq> []
   \<and> pickWeeklyPuzzle [50, 48, 50, 54, 45, 49, 49, 45, 48, 50] = Some (PUZZLES ! 0)
   \<and> weekHash [50, 48, 50, 54, 45, 49, 49, 45, 48, 50] = 1162589252
   \<and> pickFrom PUZZLES [50, 48, 50, 54, 45, 49, 49, 45, 48, 57]
       = pickFrom PUZZLES [50, 48, 50, 54, 45, 49, 49, 45, 48, 50]"
proof -
  have ne: "PUZZLES \<noteq> []"
    by (simp add: PUZZLES_def)
  have len: "length PUZZLES = 1"
    by (simp add: PUZZLES_def)
  have h: "weekHash [50, 48, 50, 54, 45, 49, 49, 45, 48, 50] = 1162589252"
    by (simp add: weekHash_def hashStep_def)
  show ?thesis
    using pick_by_hash [OF ne, of "[50, 48, 50, 54, 45, 49, 49, 45, 48, 50]"
        "[50, 48, 50, 54, 45, 49, 49, 45, 48, 57]"] ne h
    by (simp add: len)
qed

subsection \<open>C7: the leaderboard write\<close>

text \<open>
  Claim C7. \<open>submitScore\<close> inserts a row exactly when the session is complete and the
  name is not empty after trimming, that is, when the name has a code unit that is not
  white space. The row carries the trimmed name cut to at most 24 code units, the week
  key, the elapsed milliseconds of the timer state and the mistake count. Before
  completion, or with a name that is blank after trimming, nothing is inserted.
\<close>

theorem submitScore_write:
  "(submitScore wk s \<noteq> None) = (done_st s \<and> trim (name s) \<noteq> [])
   \<and> (trim (name s) = []) = (\<forall>c \<in> set (name s). isWhiteSpace c)
   \<and> (\<forall>row. submitScore wk s = Some row \<longrightarrow>
         name_row row = take 24 (trim (name s)) \<and> length (name_row row) \<le> 24
         \<and> week_key row = wk \<and> time_ms row = timeMs s \<and> mistakes_row row = mistakes s)
   \<and> (\<not> done_st s \<longrightarrow> submitScore wk s = None)
   \<and> ((\<forall>c \<in> set (name s). isWhiteSpace c) \<longrightarrow> submitScore wk s = None)"
proof -
  have blank: "(trim (name s) = []) = (\<forall>c \<in> set (name s). isWhiteSpace c)"
    by (rule trim_empty_iff)
  have fired: "(submitScore wk s \<noteq> None) = (done_st s \<and> trim (name s) \<noteq> [])"
    by (simp add: submitScore_def Let_def clampName_empty_iff)
  have row: "\<forall>row. submitScore wk s = Some row \<longrightarrow>
         name_row row = take 24 (trim (name s)) \<and> length (name_row row) \<le> 24
         \<and> week_key row = wk \<and> time_ms row = timeMs s \<and> mistakes_row row = mistakes s"
    by (auto simp: submitScore_def Let_def clampName_def split: if_splits)
  have early: "\<not> done_st s \<longrightarrow> submitScore wk s = None"
    using fired by blast
  have blank_none: "(\<forall>c \<in> set (name s). isWhiteSpace c) \<longrightarrow> submitScore wk s = None"
    using fired blank by blast
  from fired blank row early blank_none show ?thesis
    by blast
qed

text \<open>
  The solved session under the name " Khai " (with a space on each side) writes the row
  for "Khai"; under a name of two spaces and a tab it writes nothing, and neither does
  the unsolved session.
\<close>

theorem submitScore_write_witness:
  "submitScore [50, 48, 50, 54, 45, 49, 49, 45, 48, 50]
      (setName [32, 75, 104, 97, 105, 32] solved)
     = Some \<lparr>week_key = [50, 48, 50, 54, 45, 49, 49, 45, 48, 50],
             name_row = [75, 104, 97, 105], time_ms = 3900, mistakes_row = 1\<rparr>
   \<and> submitScore [50, 48, 50, 54, 45, 49, 49, 45, 48, 50] (setName [32, 32, 9] solved) = None
   \<and> submitScore [50, 48, 50, 54, 45, 49, 49, 45, 48, 50]
        (setName [32, 75, 104, 97, 105, 32] hinted) = None"
proof -
  let ?wk = "[50, 48, 50, 54, 45, 49, 49, 45, 48, 50] :: jsstring"
  let ?khai = "setName [32, 75, 104, 97, 105, 32] solved"
  have sv: "done_st solved" "timeMs solved = 3900" "mistakes solved = 1" "\<not> done_st hinted"
    by code_simp+
  have named: "done_st ?khai" "trim (name ?khai) = [75, 104, 97, 105]"
    "timeMs ?khai = 3900" "mistakes ?khai = 1"
    using sv by (simp_all add: setName_def trim_def isWhiteSpace_def)
  have blank: "\<forall>c \<in> set (name (setName [32, 32, 9] solved)). isWhiteSpace c"
    by (simp add: setName_def isWhiteSpace_def)
  have early: "\<not> done_st (setName [32, 75, 104, 97, 105, 32] hinted)"
    using sv by (simp add: setName_def)
  note khai = submitScore_write [of ?wk ?khai]
  have "submitScore ?wk ?khai \<noteq> None"
    using khai [THEN conjunct1] by (simp only: named) simp
  then obtain row where row: "submitScore ?wk ?khai = Some row"
    by blast
  have "name_row row = take 24 (trim (name ?khai)) \<and> length (name_row row) \<le> 24
         \<and> week_key row = ?wk \<and> time_ms row = timeMs ?khai \<and> mistakes_row row = mistakes ?khai"
    using khai row by blast
  then have "row = \<lparr>week_key = ?wk, name_row = [75, 104, 97, 105], time_ms = 3900, mistakes_row = 1\<rparr>"
    by (cases row) (simp add: named)
  with row have written: "submitScore ?wk ?khai =
      Some \<lparr>week_key = ?wk, name_row = [75, 104, 97, 105], time_ms = 3900, mistakes_row = 1\<rparr>"
    by simp
  have unnamed: "submitScore ?wk (setName [32, 32, 9] solved) = None"
    using submitScore_write [of ?wk "setName [32, 32, 9] solved"] blank by blast
  have unsolved: "submitScore ?wk (setName [32, 75, 104, 97, 105, 32] hinted) = None"
    using submitScore_write [of ?wk "setName [32, 75, 104, 97, 105, 32] hinted"] early by blast
  from written unnamed unsolved show ?thesis
    by blast
qed

subsection \<open>C8: the ranges of the slot and of the hint stage\<close>

text \<open>
  What holds of the ranges in every state reached from the initial one: the hint stage
  lies in 0..2, and the slot lies in 0..4 as long as the session is not complete.
\<close>

lemma ranges_while_awaiting:
  "hintStage (run R p es (initial R p)) \<le> 2
   \<and> (\<not> done_st (run R p es (initial R p)) \<longrightarrow> playerMoveIndex (run R p es (initial R p)) \<le> 4)"
proof -
  have "session_inv (run R p es (initial R p))"
    by (rule inv_run [OF inv_initial])
  then show ?thesis
    by (auto simp: session_inv_def)
qed

text \<open>
  Claim C8. In every state reached from the initial one by move attempts, hint requests
  and restarts, the slot lies in 0..4 and the hint stage in 0..2; the declaration of
  \<open>playerMoveIndex\<close> carries the same range in its comment (\<open>// 0..4\<close>). The code does
  not keep the slot in that range: the fifth correct move calls
  \<open>setPlayerMoveIndex(nextIdx)\<close> with \<open>nextIdx = 5\<close>. Evaluated on the five moves of the
  catalog's line, played from the initial state, the session is complete and
  \<open>playerMoveIndex\<close> is 5, which is not at most 4.
\<close>

theorem slot_reaches_five:
  "done_st
     (run lineRules italian
        [Attempt 1000 ''c3'' ''d4'', Attempt 2000 ''b1'' ''c3'', Attempt 3000 ''e1'' ''g1'',
         Attempt 4000 ''b2'' ''c3'', Attempt 5000 ''f1'' ''e1'']
        (initial lineRules italian))
   \<and> playerMoveIndex
     (run lineRules italian
        [Attempt 1000 ''c3'' ''d4'', Attempt 2000 ''b1'' ''c3'', Attempt 3000 ''e1'' ''g1'',
         Attempt 4000 ''b2'' ''c3'', Attempt 5000 ''f1'' ''e1'']
        (initial lineRules italian)) = 5
   \<and> \<not> playerMoveIndex
     (run lineRules italian
        [Attempt 1000 ''c3'' ''d4'', Attempt 2000 ''b1'' ''c3'', Attempt 3000 ''e1'' ''g1'',
         Attempt 4000 ''b2'' ''c3'', Attempt 5000 ''f1'' ''e1'']
        (initial lineRules italian)) \<le> 4"
  by code_simp

subsection \<open>C9: the timer reference\<close>

text \<open>
  Claim C9. The timer reference is unset in the initial state and after a restart. In a
  session that has not started its timer and is not complete, hint requests, ticks,
  edits of the name and attempts the library rejects leave the reference unset. The
  first attempt the library accepts sets it to the clock reading of that attempt,
  whether the move is the expected one or not, and no later event but a restart changes
  it again. A restart unsets it, and no other event unsets a reference that is set. The
  clock reading of the first accepted attempt is taken to be nonzero, as \<open>Date.now()\<close>
  is at any time but the first millisecond of 1970: the code tests the reference for
  truthiness, and a stored 0 would count as unset.
\<close>

theorem timer_starts_once:
  assumes "startRef s0 = None" and "\<not> done_st s0"
    and "\<forall>e \<in> set before. quiet R (game s0) e"
    and "chess_move R (game s0) f t (CHR ''q'') \<noteq> None"
    and "t0 \<noteq> 0"
    and "Restart \<notin> set later"
  shows "startRef (initial R p) = None \<and> \<not> done_st (initial R p)
       \<and> startRef (restartPuzzle R p s) = None \<and> \<not> done_st (restartPuzzle R p s)
       \<and> startRef (run R p before s0) = None
       \<and> startRef (run R p (before @ [Attempt t0 f t]) s0) = Some t0
       \<and> startRef (run R p (before @ Attempt t0 f t # later) s0) = Some t0
       \<and> (\<forall>e. e \<noteq> Restart \<and> startRef s \<noteq> None \<longrightarrow> startRef (step R p e s) \<noteq> None)"
proof -
  let ?s1 = "run R p before s0"
  have init: "startRef (initial R p) = None \<and> \<not> done_st (initial R p)"
    by (simp add: initial_def)
  have clear: "startRef (restartPuzzle R p s) = None \<and> \<not> done_st (restartPuzzle R p s)"
    by (simp add: restartPuzzle_def)
  have q: "startRef ?s1 = None \<and> game ?s1 = game s0 \<and> done_st ?s1 = done_st s0"
    using run_quiet [OF assms(3) assms(1)] .
  have first: "startRef (tryPlayerMove R p t0 f t ?s1) = Some t0"
    using q assms(2) assms(4) by (simp add: tryPlayerMove_startRef_cases truthy_def)
  then have one: "startRef (run R p (before @ [Attempt t0 f t]) s0) = Some t0"
    by (simp add: run_append)
  have "startRef (run R p later (tryPlayerMove R p t0 f t ?s1)) = Some t0"
    using run_keeps_started [OF first assms(5) assms(6)] .
  then have rest: "startRef (run R p (before @ Attempt t0 f t # later) s0) = Some t0"
    by (simp add: run_append)
  have keep: "\<forall>e. e \<noteq> Restart \<and> startRef s \<noteq> None \<longrightarrow> startRef (step R p e s) \<noteq> None"
    using step_never_clears by blast
  from init clear q one rest keep show ?thesis
    by blast
qed

text \<open>
  A hint request and the rejected c3-c4 first; then h2-h3, legal and wrong, at clock
  reading 900; then the whole line with a tick in between, and one more attempt.
\<close>

theorem timer_starts_once_witness:
  "startRef (initial lineRules italian) = None
   \<and> startRef (run lineRules italian [HintClick, Attempt 500 ''c3'' ''c4'', Tick 600]
      (initial lineRules italian)) = None
   \<and> startRef (run lineRules italian
       ([HintClick, Attempt 500 ''c3'' ''c4'', Tick 600] @ [Attempt 900 ''h2'' ''h3''])
       (initial lineRules italian)) = Some 900
   \<and> startRef (run lineRules italian
       ([HintClick, Attempt 500 ''c3'' ''c4'', Tick 600] @ Attempt 900 ''h2'' ''h3'' #
        [Attempt 1000 ''c3'' ''d4'', Tick 1500, Attempt 2000 ''b1'' ''c3'', Attempt 3000 ''e1'' ''g1'',
         Attempt 4000 ''b2'' ''c3'', Attempt 5000 ''f1'' ''e1'', Attempt 6000 ''h2'' ''h3''])
       (initial lineRules italian)) = Some 900
   \<and> startRef solved = Some 900
   \<and> startRef (restartPuzzle lineRules italian solved) = None"
proof -
  have unset: "startRef (initial lineRules italian) = None" "\<not> done_st (initial lineRules italian)"
    by (simp_all add: initial_def)
  have q: "\<forall>e \<in> set [HintClick, Attempt 500 ''c3'' ''c4'', Tick 600].
             quiet lineRules (game (initial lineRules italian)) e"
    by code_simp
  have legal: "chess_move lineRules (game (initial lineRules italian)) ''h2'' ''h3'' (CHR ''q'') \<noteq> None"
    by code_simp
  have clock: "(900 :: int) \<noteq> 0" by simp
  have nr: "Restart \<notin> set [Attempt 1000 ''c3'' ''d4'', Tick 1500, Attempt 2000 ''b1'' ''c3'',
         Attempt 3000 ''e1'' ''g1'', Attempt 4000 ''b2'' ''c3'', Attempt 5000 ''f1'' ''e1'',
         Attempt 6000 ''h2'' ''h3'']"
    by simp
  have sv: "startRef solved = Some 900" by code_simp
  from timer_starts_once [OF unset q legal clock nr, of italian solved] sv show ?thesis
    by blast
qed

subsection \<open>C10: the complete session\<close>

text \<open>
  Claim C10. Once the session is complete a move attempt returns the state it was given,
  and no sequence of events without a restart changes the board's encoding, the slot,
  the mistake count, the hint stage, the completion flag or the timer reference: no
  further mistake can be counted. Restart leaves the complete state and gives the initial
  state again (starting position, slot 0, no mistakes, hint stage 0, timer reference
  unset, elapsed time 0); the name typed by the player is kept.
\<close>

theorem complete_is_terminal:
  assumes "done_st s" and "Restart \<notin> set es"
  shows "tryPlayerMove R p now f t s = s
       \<and> done_st (run R p es s)
       \<and> chess_fen R (game (run R p es s)) = chess_fen R (game s)
       \<and> playerMoveIndex (run R p es s) = playerMoveIndex s
       \<and> mistakes (run R p es s) = mistakes s
       \<and> hintStage (run R p es s) = hintStage s
       \<and> startRef (run R p es s) = startRef s
       \<and> \<not> done_st (restartPuzzle R p s)
       \<and> restartPuzzle R p s = (initial R p)\<lparr>name := name s\<rparr>"
proof -
  have a: "tryPlayerMove R p now f t s = s"
    by (rule tryPlayerMove_done [OF assms(1)])
  have b: "restartPuzzle R p s = (initial R p)\<lparr>name := name s\<rparr>"
    by (simp add: restartPuzzle_def initial_def)
  have c: "\<not> done_st (restartPuzzle R p s)"
    by (simp add: restartPuzzle_def)
  from run_done [OF assms, of R p] a b c show ?thesis by simp
qed

text \<open>
  The solved session of the catalog's puzzle, in which one mistake was made: attempts, a
  hint request, a tick and an edit of the name leave it solved with one mistake.
\<close>

theorem complete_is_terminal_witness:
  "done_st solved \<and> mistakes solved = 1 \<and> playerMoveIndex solved = 5
   \<and> tryPlayerMove lineRules italian 6000 ''h2'' ''h3'' solved = solved
   \<and> done_st (run lineRules italian
        [Attempt 6000 ''h2'' ''h3'', HintClick, Tick 7000, SetName [75], Attempt 8000 ''c3'' ''d4'']
        solved)
   \<and> mistakes (run lineRules italian
        [Attempt 6000 ''h2'' ''h3'', HintClick, Tick 7000, SetName [75], Attempt 8000 ''c3'' ''d4'']
        solved) = 1
   \<and> \<not> done_st (restartPuzzle lineRules italian solved)
   \<and> restartPuzzle lineRules italian solved = initial lineRules italian"
proof -
  have d: "done_st solved" by code_simp
  have before: "mistakes solved = 1" "playerMoveIndex solved = 5" "name solved = []"
    by code_simp+
  have nr: "Restart \<notin> set [Attempt 6000 ''h2'' ''h3'', HintClick, Tick 7000, SetName [75],
      Attempt 8000 ''c3'' ''d4'']"
    by simp
  note res = complete_is_terminal [OF d nr, of lineRules italian 6000 "''h2''" "''h3''"]
  have noop: "tryPlayerMove lineRules italian 6000 ''h2'' ''h3'' solved = solved"
    using res by blast
  have still: "done_st (run lineRules italian
        [Attempt 6000 ''h2'' ''h3'', HintClick, Tick 7000, SetName [75], Attempt 8000 ''c3'' ''d4'']
        solved)"
    using res by blast
  have "mistakes (run lineRules italian
        [Attempt 6000 ''h2'' ''h3'', HintClick, Tick 7000, SetName [75], Attempt 8000 ''c3'' ''d4'']
        solved) = mistakes solved"
    using res by blast
  then have mis: "mistakes (run lineRules italian
        [Attempt 6000 ''h2'' ''h3'', HintClick, Tick 7000, SetName [75], Attempt 8000 ''c3'' ''d4'']
        solved) = 1"
    by (simp only: before(1))
  have left: "\<not> done_st (restartPuzzle lineRules italian solved)"
    using res by blast
  have "restartPuzzle lineRules italian solved = (initial lineRules italian)\<lparr>name := name solved\<rparr>"
    using res by blast
  also have "\<dots> = initial lineRules italian"
    by (simp add: before(3) initial_def)
  finally have restored: "restartPuzzle lineRules italian solved = initial lineRules italian" .
  from d before(1,2) noop still mis left restored show ?thesis
    by blast
qed

end
